theory Spec2Isabelle
  imports Main "HOL-Library.AList"
begin

section \<open>Python primitives used by the scheduler and the link-refresh task\<close>

text \<open>
  Python dictionaries keep insertion order: \<open>d[k] = v\<close> overwrites in place when \<open>k\<close> is
  present and appends otherwise, \<open>del d[k]\<close> removes the entry. They are association lists
  here, with \<open>AList.update\<close> and \<open>AList.delete\<close>.
\<close>

type_synonym ('k, 'v) dict = "('k \<times> 'v) list"

definition dict_has :: "'k \<Rightarrow> ('k, 'v) dict \<Rightarrow> bool" where
  "dict_has k d = (map_of d k \<noteq> None)"

definition dict_keys :: "('k, 'v) dict \<Rightarrow> 'k list" where
  "dict_keys d = map fst d"

text \<open>\<open>str(n)\<close> for an integer: decimal digits, a minus sign for a negative number.\<close>

definition digit_char :: "nat \<Rightarrow> char" where
  "digit_char d = ''0123456789'' ! d"

function str_nat :: "nat \<Rightarrow> string" where
  "str_nat n = (if n < 10 then [digit_char n] else str_nat (n div 10) @ [digit_char (n mod 10)])"
  by pat_completeness auto
termination
  by (relation "measure (\<lambda>n. n)") auto

declare str_nat.simps [simp del]

definition str_int :: "int \<Rightarrow> string" where
  "str_int i = (if i < 0 then CHR ''-'' # str_nat (nat (- i)) else str_nat (nat i))"

text \<open>
  Strings. \<open>sub in s\<close> is \<open>py_in sub s\<close>; \<open>s.split(sep)\<close> for a non-empty separator is
  \<open>py_split sep s\<close> (occurrences are found from the left and do not overlap; the result is
  never empty); \<open>sep.join(xs)\<close> is \<open>py_join sep xs\<close>. \<open>xs[i]\<close> for \<open>i \<ge> 0\<close> is
  \<open>nth_opt xs i\<close>, with \<open>None\<close> where Python raises \<open>IndexError\<close>. The source splits on
  the literals \<open>'/'\<close>, \<open>'?'\<close> and \<open>'s3.amazonaws.com/'\<close> only.
\<close>

definition startswith :: "string \<Rightarrow> string \<Rightarrow> bool" where
  "startswith sub s = (take (length sub) s = sub)"

fun py_in :: "string \<Rightarrow> string \<Rightarrow> bool" where
  "py_in sub [] = (sub = [])"
| "py_in sub (c # cs) = (startswith sub (c # cs) \<or> py_in sub cs)"

fun py_split :: "string \<Rightarrow> string \<Rightarrow> string list" where
  "py_split sep [] = [[]]"
| "py_split sep (c # cs) =
     (if sep \<noteq> [] \<and> startswith sep (c # cs)
      then [] # py_split sep (drop (length sep - 1) cs)
      else (case py_split sep cs of
              [] \<Rightarrow> [[c]]
            | x # xs \<Rightarrow> (c # x) # xs))"

fun py_join :: "string \<Rightarrow> string list \<Rightarrow> string" where
  "py_join sep [] = []"
| "py_join sep [x] = x"
| "py_join sep (x # y # ys) = x @ sep @ py_join sep (y # ys)"

definition nth_opt :: "'a list \<Rightarrow> nat \<Rightarrow> 'a option" where
  "nth_opt xs i = (if i < length xs then Some (xs ! i) else None)"

text \<open>
  \<open>os.path.basename(p)\<close> is the text after the last \<open>/\<close>. \<open>os.path.splitext(p)[1]\<close> for a
  name without \<open>/\<close> is the text from the last dot on, provided a character other than a
  dot stands before that dot, and the empty string otherwise.
\<close>

definition basename :: "string \<Rightarrow> string" where
  "basename p = rev (takeWhile (\<lambda>c. c \<noteq> CHR ''/'') (rev p))"

definition splitext_ext :: "string \<Rightarrow> string" where
  "splitext_ext p =
     (let suffix = takeWhile (\<lambda>c. c \<noteq> CHR ''.'') (rev p);
          stem = drop (length suffix + 1) (rev p)
      in if CHR ''.'' \<in> set p \<and> list_ex (\<lambda>c. c \<noteq> CHR ''.'') stem
         then CHR ''.'' # rev suffix else [])"

section \<open>The task contract (tasks/base\_task.py)\<close>

text \<open>
  A task has a name and an interval in seconds; \<open>job_id\<close> is \<open>f"task_{self.name}"\<close>.
  The interval is an integer number of seconds, as the configuration gives it
  (\<open>S3_LINK_UPDATE_INTERVAL = 3*24*60*60\<close>), so \<open>int(task.interval)\<close> is the identity.
\<close>

record task =
  name :: string
  interval :: int

definition job_id :: "task \<Rightarrow> string" where
  "job_id t = ''task_'' @ name t"

definition S3_LINK_UPDATE_INTERVAL :: int where
  "S3_LINK_UPDATE_INTERVAL = 3 * 24 * 60 * 60"

section \<open>The scheduler (scheduler/scheduler.py)\<close>

text \<open>
  A dispatch handle is what \<open>aiocron.crontab(spec, func=..., start=False)\<close> returns: the
  cron expression, the function it calls (\<open>task.execute\<close> or the \<open>wrapped_task\<close> closure of
  \<open>_create_seconds_job\<close>, each bound to a task), and whether it is started.
\<close>

datatype cron_func = Execute string | Wrapped_task string

record cron =
  spec :: string
  func :: cron_func
  started :: bool

record scheduler =
  tasks :: "(string, task) dict"
  crons :: "(string, cron) dict"

definition init_scheduler :: scheduler where
  "init_scheduler = \<lparr>tasks = [], crons = []\<rparr>"

definition crontab :: "string \<Rightarrow> cron_func \<Rightarrow> cron" where
  "crontab e f = \<lparr>spec = e, func = f, started = False\<rparr>"

definition create_seconds_job :: "task \<Rightarrow> cron" where
  "create_seconds_job t = crontab ''* * * * *'' (Wrapped_task (job_id t))"

text \<open>The cron expression \<open>add_task\<close> computes for an interval of at least 60 seconds.\<close>

definition cron_expr :: "int \<Rightarrow> string" where
  "cron_expr interval_seconds =
     (let minutes = interval_seconds div 60 in
      if minutes < 60 then
        (if minutes > 1 then ''*/'' @ str_int minutes @ '' * * * *'' else ''* * * * *'')
      else
        (let hours = minutes div 60 in
         if hours > 1 then ''0 */'' @ str_int hours @ '' * * *'' else ''0 * * * *''))"

definition add_task :: "task \<Rightarrow> scheduler \<Rightarrow> bool \<times> scheduler" where
  "add_task t s =
     (if dict_has (job_id t) (tasks s) then (False, s)
      else
        (let interval_seconds = interval t;
             cron_job = (if interval_seconds < 60 then create_seconds_job t
                         else crontab (cron_expr interval_seconds) (Execute (job_id t)))
         in (True, s\<lparr>crons := AList.update (job_id t) cron_job (crons s),
                      tasks := AList.update (job_id t) t (tasks s)\<rparr>)))"

definition remove_task :: "string \<Rightarrow> scheduler \<Rightarrow> bool \<times> scheduler" where
  "remove_task task_id s =
     (if \<not> dict_has task_id (tasks s) then (False, s)
      else
        (let s1 = (if dict_has task_id (crons s)
                   then s\<lparr>crons := AList.delete task_id (crons s)\<rparr> else s)
         in (True, s1\<lparr>tasks := AList.delete task_id (tasks s1)\<rparr>)))"

text \<open>\<open>shutdown\<close> stops every handle and then rebinds \<open>self.crons\<close> to an empty dictionary.\<close>

definition shutdown :: "scheduler \<Rightarrow> scheduler" where
  "shutdown s = s\<lparr>crons := []\<rparr>"

definition get_tasks :: "scheduler \<Rightarrow> task list" where
  "get_tasks s = map snd (tasks s)"

text \<open>A sequence of registry operations, applied from left to right.\<close>

datatype sched_op = Add_task task | Remove_task string

fun apply_op :: "sched_op \<Rightarrow> scheduler \<Rightarrow> scheduler" where
  "apply_op (Add_task t) s = snd (add_task t s)"
| "apply_op (Remove_task i) s = snd (remove_task i s)"

fun run_ops :: "sched_op list \<Rightarrow> scheduler \<Rightarrow> scheduler" where
  "run_ops [] s = s"
| "run_ops (x # xs) s = run_ops xs (apply_op x s)"

subsection \<open>Dispatch at run time\<close>

text \<open>
  What runs besides the registry: the \<open>seconds_runner\<close> loops that \<open>wrapped_task\<close> creates
  with \<open>asyncio.create_task\<close> (each an endless \<open>while True\<close> around \<open>task.execute()\<close> and
  \<open>asyncio.sleep(task.interval)\<close>, kept by nothing but the event loop), the
  \<open>_run_task_now\<close> tasks that \<open>start\<close> creates, and the log of executions. Loops and
  startup runs are named by the job id of their task.
\<close>

record runtime =
  sched :: scheduler
  loops :: "string list"
  startup_runs :: "string list"
  executions :: "string list"

definition init_runtime :: "scheduler \<Rightarrow> runtime" where
  "init_runtime s = \<lparr>sched = s, loops = [], startup_runs = [], executions = []\<rparr>"

text \<open>\<open>wrapped_task\<close>: \<open>asyncio.create_task(seconds_runner())\<close>, then \<open>return None\<close>.\<close>

definition wrapped_task :: "string \<Rightarrow> runtime \<Rightarrow> runtime" where
  "wrapped_task j r = r\<lparr>loops := loops r @ [j]\<rparr>"

text \<open>One iteration of the \<open>i\<close>-th live \<open>seconds_runner\<close> loop: it executes its task, then sleeps.\<close>

definition seconds_runner_step :: "nat \<Rightarrow> runtime \<Rightarrow> runtime" where
  "seconds_runner_step i r =
     (if i < length (loops r) then r\<lparr>executions := executions r @ [loops r ! i]\<rparr> else r)"

text \<open>
  The cron primitive calls the function of a started handle at every time its expression
  matches; for \<open>* * * * *\<close> that is every minute boundary.
\<close>

definition cron_fire :: "string \<Rightarrow> runtime \<Rightarrow> runtime" where
  "cron_fire j r =
     (case map_of (crons (sched r)) j of
        None \<Rightarrow> r
      | Some c \<Rightarrow>
          if \<not> started c then r
          else (case func c of
                  Execute i \<Rightarrow> r\<lparr>executions := executions r @ [i]\<rparr>
                | Wrapped_task i \<Rightarrow> wrapped_task i r))"

definition start :: "runtime \<Rightarrow> runtime" where
  "start r =
     (if tasks (sched r) = [] then r
      else r\<lparr>sched := (sched r)\<lparr>crons := map (\<lambda>(j, c). (j, c\<lparr>started := True\<rparr>)) (crons (sched r))\<rparr>,
             startup_runs := startup_runs r @ dict_keys (crons (sched r))\<rparr>)"

text \<open>\<open>shutdown\<close> at run time: the scheduler's \<open>shutdown\<close>; it names no loop.\<close>

definition runtime_shutdown :: "runtime \<Rightarrow> runtime" where
  "runtime_shutdown r = r\<lparr>sched := shutdown (sched r)\<rparr>"

section \<open>The link-refresh task (tasks/s3\_link\_updater.py)\<close>

subsection \<open>Path extraction\<close>

text \<open>
  \<open>_extract_path_from_url\<close>. Its \<open>try\<close> turns the \<open>IndexError\<close> of \<open>[1]\<close> into \<open>None\<close>.
\<close>

definition extract_path_from_url :: "string \<Rightarrow> string option" where
  "extract_path_from_url url =
     (if py_in ''s3.amazonaws.com'' url
      then nth_opt (py_split ''s3.amazonaws.com/'' url) 1
      else
        (let parts = py_split ''/'' url in
         if length parts \<ge> 4
         then nth_opt (py_split ''?'' (py_join ''/'' (drop 3 parts))) 0
         else None))"

subsection \<open>The collaborators\<close>

text \<open>
  The task talks to the database session, the S3 client, the HTTP session and the local
  file system. Every call to one of them is logged as an event; the log is the run's trace.
\<close>

datatype event =
    Session_open | Query | S3_open | Http_open | Commit
  | Head_object string | Presign string nat | Delete_object string | Upload string
  | Http_get string | Read_chunk | Mkstemp string | File_open string | File_write string
  | Remove string

datatype exn = ValueError | Not_found string | Download_failed nat | Call_failed event

record template =
  template_id :: int
  download_url :: "string option"
  image_url :: "string option"

text \<open>
  The state: the bucket's objects (key to content), the local files (path to content), the
  committed rows of the template table, and the trace.
\<close>

record world =
  objects :: "string \<rightharpoonup> string"
  files :: "string \<rightharpoonup> string"
  db :: "template list"
  trace :: "event list"

text \<open>
  What the task does not decide. \<open>fails n\<close>: the call made when the trace has length \<open>n\<close>
  raises (a network, store, database or disk error), so every pattern of failures is an
  environment. \<open>presigned key expires n\<close>: the URL \<open>generate_presigned_url\<close> returns for the key
  and \<open>ExpiresIn\<close>, asked at trace length \<open>n\<close>. \<open>uuid4 n\<close> and \<open>mkstemp_name n\<close>: the names
  \<open>uuid.uuid4()\<close> and \<open>tempfile.mkstemp()\<close> pick. \<open>http_response url\<close>: the status and the
  body, in the chunks \<open>response.content.read(1024)\<close> returns, that a GET of the URL gives.

  A body is a finite list of chunks. \<open>tempfile.mkstemp\<close>, \<open>os.close\<close>, \<open>os.path.exists\<close>
  and \<open>os.remove\<close> on the temporary file do not fail, and leaving a \<open>with\<close> or
  \<open>async with\<close> block is not a call that can fail. What is raised is an \<open>Exception\<close>;
  the cancellation of the running coroutine is not part of the model. Logging is left out.
\<close>

record env =
  fails :: "nat \<Rightarrow> bool"
  presigned :: "string \<Rightarrow> nat \<Rightarrow> nat \<Rightarrow> string"
  uuid4 :: "nat \<Rightarrow> string"
  mkstemp_name :: "nat \<Rightarrow> string"
  http_response :: "string \<Rightarrow> nat \<times> string list"

definition failed :: "env \<Rightarrow> world \<Rightarrow> bool" where
  "failed e w = fails e (length (trace w))"

definition log :: "event \<Rightarrow> world \<Rightarrow> world" where
  "log ev w = w\<lparr>trace := trace w @ [ev]\<rparr>"

subsection \<open>Deleting an object\<close>

text \<open>
  \<open>_delete_s3_object\<close>: the key is \<open>path.split("/")[1]\<close>; any exception, the
  \<open>IndexError\<close> of \<open>[1]\<close> included, gives \<open>False\<close>. Deleting a key removes it from the bucket.
\<close>

definition delete_s3_object :: "env \<Rightarrow> string \<Rightarrow> world \<Rightarrow> bool \<times> world" where
  "delete_s3_object e path w =
     (case nth_opt (py_split ''/'' path) 1 of
        None \<Rightarrow> (False, w)
      | Some key \<Rightarrow>
          if failed e w then (False, log (Delete_object key) w)
          else (True, (log (Delete_object key) w)\<lparr>objects := (objects w)(key := None)\<rparr>))"

subsection \<open>Re-uploading a file\<close>

text \<open>
  The download loop of \<open>_reupload_file\<close>: read a chunk; stop at an empty one (the end of
  the body); otherwise append it to the temporary file.
\<close>

fun read_chunks :: "env \<Rightarrow> string \<Rightarrow> string list \<Rightarrow> world \<Rightarrow> (exn + unit) \<times> world" where
  "read_chunks e temp_path [] w =
     (if failed e w then (Inl (Call_failed Read_chunk), log Read_chunk w)
      else (Inr (), log Read_chunk w))"
| "read_chunks e temp_path (chunk # rest) w =
     (if failed e w then (Inl (Call_failed Read_chunk), log Read_chunk w)
      else
        (let w1 = log Read_chunk w in
         if chunk = [] then (Inr (), w1)
         else if failed e w1 then (Inl (Call_failed (File_write temp_path)), log (File_write temp_path) w1)
         else read_chunks e temp_path rest
                ((log (File_write temp_path) w1)
                   \<lparr>files := (files w1)(temp_path \<mapsto>
                       (case files w1 temp_path of None \<Rightarrow> [] | Some c \<Rightarrow> c) @ chunk)\<rparr>)))"

text \<open>The body of the \<open>try\<close> block of \<open>_reupload_file\<close>.\<close>

definition reupload_try :: "env \<Rightarrow> string \<Rightarrow> string \<Rightarrow> world \<Rightarrow> (exn + string) \<times> world" where
  "reupload_try e url temp_path w =
     (if failed e w then (Inl (Call_failed (Http_get url)), log (Http_get url) w)
      else
        (let w1 = log (Http_get url) w in
         if fst (http_response e url) \<noteq> 200
         then (Inl (Download_failed (fst (http_response e url))), w1)
         else if failed e w1 then (Inl (Call_failed (File_open temp_path)), log (File_open temp_path) w1)
         else
           (case read_chunks e temp_path (snd (http_response e url))
                   ((log (File_open temp_path) w1)\<lparr>files := (files w1)(temp_path \<mapsto> [])\<rparr>) of
              (Inl x, w3) \<Rightarrow> (Inl x, w3)
            | (Inr u, w3) \<Rightarrow>
                (let original_filename =
                       basename (case nth_opt (py_split ''?'' url) 0 of None \<Rightarrow> [] | Some b \<Rightarrow> b);
                     unique_filename = uuid4 e (length (trace w3)) @ splitext_ext original_filename
                 in if failed e w3
                    then (Inl (Call_failed (File_open temp_path)), log (File_open temp_path) w3)
                    else
                      (case files w3 temp_path of
                         None \<Rightarrow> (Inl (Not_found temp_path), log (File_open temp_path) w3)
                       | Some content \<Rightarrow>
                           (let w4 = log (File_open temp_path) w3 in
                            if failed e w4
                            then (Inl (Call_failed (Upload unique_filename)), log (Upload unique_filename) w4)
                            else
                              (let w5 = (log (Upload unique_filename) w4)
                                          \<lparr>objects := (objects w4)(unique_filename \<mapsto> content)\<rparr>
                               in if failed e w5
                                  then (Inl (Call_failed (Presign unique_filename (60*60*24*7))),
                                        log (Presign unique_filename (60*60*24*7)) w5)
                                  else (Inr (presigned e unique_filename (60*60*24*7) (length (trace w5))),
                                        log (Presign unique_filename (60*60*24*7)) w5))))))))"

text \<open>
  \<open>_reupload_file\<close>: \<open>tempfile.mkstemp()\<close> creates the temporary file, the \<open>try\<close> block runs,
  and the \<open>finally\<close> block removes the file if it exists, whatever the block returned or raised.
\<close>

definition reupload_file :: "env \<Rightarrow> string \<Rightarrow> world \<Rightarrow> (exn + string) \<times> world" where
  "reupload_file e url w =
     (let temp_path = mkstemp_name e (length (trace w));
          w0 = (log (Mkstemp temp_path) w)\<lparr>files := (files w)(temp_path \<mapsto> [])\<rparr>
      in case reupload_try e url temp_path w0 of
           (r, w1) \<Rightarrow>
             (r, if files w1 temp_path \<noteq> None
                 then (log (Remove temp_path) w1)\<lparr>files := (files w1)(temp_path := None)\<rparr>
                 else w1))"

subsection \<open>Refreshing a link\<close>

text \<open>
  \<open>_refresh_s3_link\<close>: no path (or an empty one) raises \<open>ValueError\<close>; \<open>head_object\<close>
  succeeds when the key is in the bucket and the call does not fail; a failure of it or of
  \<open>generate_presigned_url\<close> goes to \<open>_reupload_file\<close>, whose exception is raised on.
\<close>

definition refresh_s3_link :: "env \<Rightarrow> string \<Rightarrow> world \<Rightarrow> (exn + string) \<times> world" where
  "refresh_s3_link e url w =
     (case extract_path_from_url url of
        None \<Rightarrow> (Inl ValueError, w)
      | Some path \<Rightarrow>
          if path = [] then (Inl ValueError, w)
          else if failed e w \<or> objects w path = None
          then reupload_file e url (log (Head_object path) w)
          else
            (let w1 = log (Head_object path) w in
             if failed e w1 then reupload_file e url (log (Presign path (60*60*24*7)) w1)
             else (Inr (presigned e path (60*60*24*7) (length (trace w1))),
                   log (Presign path (60*60*24*7)) w1)))"

subsection \<open>Updating a template\<close>

text \<open>
  \<open>_update_template_urls\<close> treats \<open>download_url\<close> and \<open>image_url\<close> with the same block of
  code, \<open>update_url_field\<close> here: skip an absent or empty field; extract the old path;
  refresh; if the new URL differs, store it and delete the old path when there is one. The
  block's \<open>except\<close> catches whatever is raised and leaves the field. The result is the field
  and whether it was updated.
\<close>

definition update_url_field :: "env \<Rightarrow> string option \<Rightarrow> world \<Rightarrow> (string option \<times> bool) \<times> world" where
  "update_url_field e field w =
     (case field of
        None \<Rightarrow> ((None, False), w)
      | Some url \<Rightarrow>
          if url = [] then ((field, False), w)
          else
            (let old_path = extract_path_from_url url in
             case refresh_s3_link e url w of
               (Inl x, w1) \<Rightarrow> ((field, False), w1)
             | (Inr new_url, w1) \<Rightarrow>
                 if new_url \<noteq> url
                 then ((Some new_url, True),
                       (case old_path of
                          None \<Rightarrow> w1
                        | Some p \<Rightarrow> if p = [] then w1 else snd (delete_s3_object e p w1)))
                 else ((field, False), w1)))"

definition update_template_urls :: "env \<Rightarrow> template \<Rightarrow> world \<Rightarrow> (template \<times> bool) \<times> world" where
  "update_template_urls e t w =
     (case update_url_field e (download_url t) w of
        ((d, u1), w1) \<Rightarrow>
          (case update_url_field e (image_url t) w1 of
             ((i, u2), w2) \<Rightarrow> ((t\<lparr>download_url := d, image_url := i\<rparr>, u1 \<or> u2), w2)))"

subsection \<open>The run\<close>

text \<open>
  The loop of \<open>execute\<close> over the queried templates, with its \<open>updated_count\<close>.
  \<open>_update_template_urls\<close> catches what its two blocks raise, so nothing is left for the
  loop's own \<open>except\<close>.
\<close>

fun process_templates :: "env \<Rightarrow> template list \<Rightarrow> nat \<Rightarrow> world \<Rightarrow> (template list \<times> nat) \<times> world" where
  "process_templates e [] updated_count w = (([], updated_count), w)"
| "process_templates e (t # ts) updated_count w =
     (case update_template_urls e t w of
        ((t', updated), w1) \<Rightarrow>
          (case process_templates e ts (if updated then updated_count + 1 else updated_count) w1 of
             ((ts', n), w2) \<Rightarrow> ((t' # ts', n), w2)))"

text \<open>A successful commit writes the session's templates over the rows with their ids.\<close>

definition write_back :: "template list \<Rightarrow> template list \<Rightarrow> template list" where
  "write_back ts rows =
     map (\<lambda>r. case find (\<lambda>t. template_id t = template_id r) ts of None \<Rightarrow> r | Some t \<Rightarrow> t) rows"

text \<open>
  The body of the outer \<open>try\<close> of \<open>execute\<close>: open the session, query the templates with a
  URL, open the S3 client and the HTTP session, process every template, commit.
\<close>

definition execute_body :: "env \<Rightarrow> world \<Rightarrow> (exn + nat) \<times> world" where
  "execute_body e w =
     (if failed e w then (Inl (Call_failed Session_open), log Session_open w)
      else
        (let w1 = log Session_open w in
         if failed e w1 then (Inl (Call_failed Query), log Query w1)
         else
           (let w2 = log Query w1;
                templates = filter (\<lambda>t. download_url t \<noteq> None \<or> image_url t \<noteq> None) (db w2)
            in if failed e w2 then (Inl (Call_failed S3_open), log S3_open w2)
               else
                 (let w3 = log S3_open w2 in
                  if failed e w3 then (Inl (Call_failed Http_open), log Http_open w3)
                  else
                    (case process_templates e templates 0 (log Http_open w3) of
                       ((ts, updated_count), w5) \<Rightarrow>
                         if failed e w5 then (Inl (Call_failed Commit), log Commit w5)
                         else (Inr updated_count,
                               (log Commit w5)\<lparr>db := write_back ts (db w5)\<rparr>))))))"

text \<open>\<open>execute\<close>: the outer \<open>except Exception\<close> logs what the body raised and returns.\<close>

definition execute :: "env \<Rightarrow> world \<Rightarrow> (exn + unit) \<times> world" where
  "execute e w =
     (case execute_body e w of
        (Inl x, w') \<Rightarrow> (Inr (), w')
      | (Inr n, w') \<Rightarrow> (Inr (), w'))"

subsection \<open>Traces\<close>

text \<open>
  \<open>new_events w w'\<close> are the events logged between \<open>w\<close> and \<open>w'\<close>. \<open>steps w w'\<close>: \<open>w'\<close> comes
  from \<open>w\<close> by logging events other than \<open>Commit\<close>, the committed rows untouched.
\<close>

definition new_events :: "world \<Rightarrow> world \<Rightarrow> event list" where
  "new_events w w' = drop (length (trace w)) (trace w')"

definition steps :: "world \<Rightarrow> world \<Rightarrow> bool" where
  "steps w w' \<longleftrightarrow>
     take (length (trace w)) (trace w') = trace w
     \<and> Commit \<notin> set (new_events w w')
     \<and> db w' = db w"

subsection \<open>An example environment\<close>

text \<open>
  An environment in which no call fails, with fixed names, and a state with the given
  bucket and table, no local file and an empty trace.
\<close>

definition quiet_env :: env where
  "quiet_env =
     \<lparr>fails = (\<lambda>n. False),
      presigned = (\<lambda>key expires n. ''https://signed/'' @ key),
      uuid4 = (\<lambda>n. ''uuid''),
      mkstemp_name = (\<lambda>n. ''/tmp/tmpfile''),
      http_response = (\<lambda>url. (200, [''ab'', ''cd'']))\<rparr>"

definition store_world :: "(string \<rightharpoonup> string) \<Rightarrow> template list \<Rightarrow> world" where
  "store_world objs rows = \<lparr>objects = objs, files = Map.empty, db = rows, trace = []\<rparr>"

section \<open>Facts about the primitives\<close>

lemma dict_has_keys: "dict_has k d \<longleftrightarrow> k \<in> set (dict_keys d)"
  by (simp add: dict_has_def dict_keys_def map_of_eq_None_iff)

lemma update_absent: "\<not> dict_has k d \<Longrightarrow> AList.update k v d = d @ [(k, v)]"
  by (induction d) (auto simp: dict_has_def split: if_splits)

lemma keys_update: "set (dict_keys (AList.update k v d)) = insert k (set (dict_keys d))"
  using dom_update [of k v d] by (simp add: dict_keys_def)

lemma keys_delete: "set (dict_keys (AList.delete k d)) = set (dict_keys d) - {k}"
  by (induction d) (auto simp: dict_keys_def)

lemma div_60_60: "(i::int) div 60 div 60 = i div 3600"
  by (simp add: zdiv_zmult2_eq)

subsection \<open>Splitting and joining strings\<close>

lemma py_split_nonempty: "py_split sep s \<noteq> []"
  by (induction s) (auto split: list.splits)

lemma startswith_append: "startswith sep s \<Longrightarrow> s = sep @ drop (length sep) s"
  unfolding startswith_def by (metis append_take_drop_id)

lemma py_join_Cons: "xs \<noteq> [] \<Longrightarrow> py_join sep (x # xs) = x @ sep @ py_join sep xs"
  by (cases xs) simp_all

lemma py_join_Cons_char: "py_join sep ((c # x) # xs) = c # py_join sep (x # xs)"
  by (cases xs) simp_all

lemma py_join_split: "sep \<noteq> [] \<Longrightarrow> py_join sep (py_split sep s) = s"
proof (induction sep s rule: py_split.induct)
  case (1 sep)
  then show ?case by simp
next
  case (2 sep c cs)
  show ?case
  proof (cases "startswith sep (c # cs)")
    case True
    obtain d ds where sep: "sep = d # ds" using "2.prems" by (cases sep) auto
    from True have eq: "c # cs = sep @ drop (length sep) (c # cs)"
      by (rule startswith_append)
    have dr: "drop (length sep) (c # cs) = drop (length sep - 1) cs"
      using sep by simp
    have "py_join sep (py_split sep (c # cs)) = sep @ py_join sep (py_split sep (drop (length sep - 1) cs))"
      using True "2.prems" by (simp add: py_join_Cons py_split_nonempty)
    also have "\<dots> = sep @ drop (length sep - 1) cs"
      using "2.IH"(1) True "2.prems" by simp
    also have "\<dots> = c # cs" using eq dr by simp
    finally show ?thesis .
  next
    case False
    obtain x xs where r: "py_split sep cs = x # xs"
      using py_split_nonempty [of sep cs] by (cases "py_split sep cs") auto
    have "py_join sep (x # xs) = cs" using "2.IH"(2) False "2.prems" r by simp
    then show ?thesis using False r by (simp add: py_join_Cons_char)
  qed
qed

lemma py_split_no_occurrence: "\<not> py_in sep s \<Longrightarrow> py_split sep s = [s]"
  by (induction s) (auto split: list.splits)

lemma py_split_occurrence: "sep \<noteq> [] \<Longrightarrow> py_in sep s \<Longrightarrow> 2 \<le> length (py_split sep s)"
proof (induction sep s rule: py_split.induct)
  case (1 sep)
  then show ?case by simp
next
  case (2 sep c cs)
  show ?case
  proof (cases "startswith sep (c # cs)")
    case True
    have "py_split sep (drop (length sep - 1) cs) \<noteq> []" by (rule py_split_nonempty)
    then have "1 \<le> length (py_split sep (drop (length sep - 1) cs))"
      by (cases "py_split sep (drop (length sep - 1) cs)") auto
    then show ?thesis using True "2.prems" by simp
  next
    case False
    then have "py_in sep cs" using "2.prems" by simp
    then have "2 \<le> length (py_split sep cs)" using "2.IH"(2) False "2.prems" by simp
    then show ?thesis using False by (auto split: list.splits)
  qed
qed

lemma py_in_single: "py_in [c] s \<longleftrightarrow> c \<in> set s"
  by (induction s) (auto simp: startswith_def)

lemma py_split_first:
  "sep \<noteq> [] \<Longrightarrow> \<not> py_in sep (pre @ butlast sep) \<Longrightarrow>
   py_split sep (pre @ sep @ rest) = pre # py_split sep rest"
proof (induction pre)
  case Nil
  obtain d ds where sep: "sep = d # ds" using Nil.prems by (cases sep) auto
  show ?case using sep by (simp add: startswith_def)
next
  case (Cons a pre)
  have len: "length sep \<le> length ((a # pre) @ butlast sep)"
    by simp
  have no: "\<not> startswith sep ((a # pre) @ butlast sep)" and rest: "\<not> py_in sep (pre @ butlast sep)"
    using Cons.prems(2) by simp_all
  have split: "(a # pre) @ sep @ rest = ((a # pre) @ butlast sep) @ ([last sep] @ rest)"
    using Cons.prems(1) by simp
  have "take (length sep) ((a # pre) @ sep @ rest) = take (length sep) ((a # pre) @ butlast sep)"
    unfolding split using len by (simp del: append_Cons append.simps)
  then have "\<not> startswith sep ((a # pre) @ sep @ rest)"
    using no unfolding startswith_def by simp
  then show ?case using Cons.IH [OF Cons.prems(1) rest] by simp
qed

lemma py_split_hd_single: "nth_opt (py_split [c] s) 0 = Some (takeWhile (\<lambda>x. x \<noteq> c) s)"
proof (induction s)
  case Nil
  then show ?case by (simp add: nth_opt_def)
next
  case (Cons a s)
  then show ?case
    by (cases "py_split [c] s") (auto simp: nth_opt_def startswith_def split: if_splits)
qed

lemma py_join_length: "xs \<noteq> [] \<Longrightarrow> length (hd xs) \<le> length (py_join sep xs)"
  by (cases xs; cases "tl xs") auto

lemma second_segment_shorter:
  assumes "sep \<noteq> []" and "nth_opt (py_split sep s) 1 = Some k"
  shows "length k < length s"
proof -
  obtain a rest where sp: "py_split sep s = a # k # rest"
    using assms(2)
    by (cases "py_split sep s"; cases "tl (py_split sep s)") (auto simp: nth_opt_def split: if_splits)
  have "s = py_join sep (py_split sep s)" using assms(1) by (simp add: py_join_split)
  also have "\<dots> = a @ sep @ py_join sep (k # rest)" using sp by simp
  finally have "length s = length a + length sep + length (py_join sep (k # rest))" by simp
  moreover have "length k \<le> length (py_join sep (k # rest))"
    using py_join_length [of "k # rest" sep] by simp
  moreover have "0 < length sep" using assms(1) by simp
  ultimately show ?thesis by linarith
qed

lemma py_in_append: "py_in sub (a @ sub @ b)"
proof (induction a)
  case Nil
  show ?case by (cases sub; cases b) (simp_all add: startswith_def)
next
  case (Cons x a)
  then show ?case by simp
qed

lemma py_in_iff: "py_in sub s \<longleftrightarrow> (\<exists>a b. s = a @ sub @ b)"
proof
  show "py_in sub s \<Longrightarrow> \<exists>a b. s = a @ sub @ b"
  proof (induction s)
    case Nil
    then show ?case by simp
  next
    case (Cons c cs)
    show ?case
    proof (cases "startswith sub (c # cs)")
      case True
      then have "c # cs = [] @ sub @ drop (length sub) (c # cs)"
        using startswith_append by simp
      then show ?thesis by blast
    next
      case False
      then have "py_in sub cs" using Cons.prems by simp
      then obtain a b where "cs = a @ sub @ b" using Cons.IH by blast
      then have "c # cs = (c # a) @ sub @ b" by simp
      then show ?thesis by blast
    qed
  qed
next
  show "\<exists>a b. s = a @ sub @ b \<Longrightarrow> py_in sub s"
    using py_in_append by blast
qed

lemma marker_butlast: "butlast ''s3.amazonaws.com/'' = ''s3.amazonaws.com''"
  by simp

lemma marker_in: "py_in ''s3.amazonaws.com'' (pre @ ''s3.amazonaws.com/'' @ rest)"
  using py_in_append [of "''s3.amazonaws.com''" pre "''/'' @ rest"] by simp

lemma extract_marker_first:
  assumes "\<not> py_in ''s3.amazonaws.com/'' (pre @ ''s3.amazonaws.com'')"
  shows "extract_path_from_url (pre @ ''s3.amazonaws.com/'' @ rest)
           = nth_opt (py_split ''s3.amazonaws.com/'' rest) 0"
proof -
  have "py_split ''s3.amazonaws.com/'' (pre @ ''s3.amazonaws.com/'' @ rest)
          = pre # py_split ''s3.amazonaws.com/'' rest"
    using py_split_first [of "''s3.amazonaws.com/''" pre rest] assms by simp
  then show ?thesis
    using marker_in [of pre rest] py_split_nonempty [of "''s3.amazonaws.com/''" rest]
    by (cases "py_split ''s3.amazonaws.com/'' rest")
       (simp_all add: extract_path_from_url_def nth_opt_def del: py_in.simps py_split.simps append.simps)
qed

section \<open>The scheduler's registry\<close>

lemma keys_add_task:
  "set (dict_keys (crons s)) = set (dict_keys (tasks s)) \<Longrightarrow>
   set (dict_keys (crons (snd (add_task t s)))) = set (dict_keys (tasks (snd (add_task t s))))"
  by (simp add: add_task_def Let_def keys_update)

lemma keys_remove_task:
  "set (dict_keys (crons s)) = set (dict_keys (tasks s)) \<Longrightarrow>
   set (dict_keys (crons (snd (remove_task i s)))) = set (dict_keys (tasks (snd (remove_task i s))))"
  by (auto simp: remove_task_def Let_def keys_delete dict_has_keys)

lemma keys_run_ops:
  "set (dict_keys (crons s)) = set (dict_keys (tasks s)) \<Longrightarrow>
   set (dict_keys (crons (run_ops ops s))) = set (dict_keys (tasks (run_ops ops s)))"
proof (induction ops arbitrary: s)
  case Nil
  then show ?case by simp
next
  case (Cons x xs)
  have "set (dict_keys (crons (apply_op x s))) = set (dict_keys (tasks (apply_op x s)))"
    using Cons.prems by (cases x) (simp_all add: keys_add_task keys_remove_task)
  then show ?case using Cons.IH by simp
qed

lemma str_int_2: "str_int 2 = ''2''"
  by (simp add: str_int_def str_nat.simps digit_char_def)

section \<open>Claims about the scheduler\<close>

text \<open>
  The cron expression that \<open>add_task\<close> stores with the handle of a task whose interval is
  \<open>I\<close> seconds, \<open>60 \<le> I\<close>: for \<open>I < 3600\<close> the step form \<open>*/m * * * *\<close> with \<open>m = I div 60\<close>, or
  \<open>* * * * *\<close> when \<open>m = 1\<close>; for \<open>3600 \<le> I\<close> the form \<open>0 */h * * *\<close> with \<open>h = I div 3600\<close>, or
  \<open>0 * * * *\<close> when \<open>h = 1\<close>. An interval of 7200 gives \<open>0 */2 * * *\<close> and one of 90 gives
  \<open>* * * * *\<close>.
\<close>

lemma add_task_cron_expr:
  "(\<not> dict_has (job_id t) (tasks s) \<and> 60 \<le> interval t \<longrightarrow>
      map_of (crons (snd (add_task t s))) (job_id t) =
        Some \<lparr>spec = cron_expr (interval t), func = Execute (job_id t), started = False\<rparr>)
   \<and> (60 \<le> I \<and> I < 3600 \<longrightarrow>
        cron_expr I = (if I div 60 = 1 then ''* * * * *''
                       else ''*/'' @ str_int (I div 60) @ '' * * * *''))
   \<and> (3600 \<le> I \<longrightarrow>
        cron_expr I = (if I div 3600 = 1 then ''0 * * * *''
                       else ''0 */'' @ str_int (I div 3600) @ '' * * *''))
   \<and> cron_expr 7200 = ''0 */2 * * *''
   \<and> cron_expr 90 = ''* * * * *''"
proof -
  have stored: "\<not> dict_has (job_id t) (tasks s) \<and> 60 \<le> interval t \<longrightarrow>
      map_of (crons (snd (add_task t s))) (job_id t) =
        Some \<lparr>spec = cron_expr (interval t), func = Execute (job_id t), started = False\<rparr>"
    by (simp add: add_task_def Let_def crontab_def update_conv')
  have minutes: "60 \<le> I \<and> I < 3600 \<longrightarrow>
        cron_expr I = (if I div 60 = 1 then ''* * * * *''
                       else ''*/'' @ str_int (I div 60) @ '' * * * *'')"
  proof
    assume h: "60 \<le> I \<and> I < 3600"
    then have "1 \<le> I div 60" and "I div 60 < 60"
      using zdiv_mono1 [of 60 I 60] zdiv_mono1 [of I 3599 60] by simp_all
    then show "cron_expr I = (if I div 60 = 1 then ''* * * * *''
                       else ''*/'' @ str_int (I div 60) @ '' * * * *'')"
      by (auto simp: cron_expr_def Let_def)
  qed
  have hours: "3600 \<le> I \<longrightarrow>
        cron_expr I = (if I div 3600 = 1 then ''0 * * * *''
                       else ''0 */'' @ str_int (I div 3600) @ '' * * *'')"
  proof
    assume h: "3600 \<le> I"
    then have "60 \<le> I div 60" and "1 \<le> I div 3600"
      using zdiv_mono1 [of 3600 I 60] zdiv_mono1 [of 3600 I 3600] by simp_all
    then show "cron_expr I = (if I div 3600 = 1 then ''0 * * * *''
                       else ''0 */'' @ str_int (I div 3600) @ '' * * *'')"
      by (auto simp: cron_expr_def Let_def div_60_60)
  qed
  have two_hours: "cron_expr 7200 = ''0 */2 * * *''"
    by (simp add: cron_expr_def Let_def str_int_2)
  have ninety: "cron_expr 90 = ''* * * * *''"
    by (simp add: cron_expr_def Let_def)
  from stored minutes hours two_hours ninety show ?thesis by blast
qed

text \<open>
  C4, evaluated on the code. The link-refresh task is registered with its interval of
  259200 seconds (three days, as its docstring says). The quotient \<open>259200 div 3600 = 72\<close>
  is written as the step of the hour field: the handle is stored with \<open>0 */72 * * *\<close>. The
  hour field of a cron expression ranges over 0 to 23, so a step of 72 leaves hour 0 only.
  Likewise 420 seconds give \<open>*/7 * * * *\<close>, a step of 7 in a minute field that ranges over
  0 to 59.
\<close>

theorem cron_expr_step_beyond_field:
  "S3_LINK_UPDATE_INTERVAL = 259200
   \<and> S3_LINK_UPDATE_INTERVAL div 3600 = 72
   \<and> map_of (crons (snd (add_task
          \<lparr>name = ''s3_link_updater'', interval = S3_LINK_UPDATE_INTERVAL\<rparr> init_scheduler)))
        ''task_s3_link_updater''
      = Some \<lparr>spec = ''0 */72 * * *'', func = Execute ''task_s3_link_updater'', started = False\<rparr>
   \<and> cron_expr 420 = ''*/7 * * * *''"
proof -
  let ?t = "\<lparr>name = ''s3_link_updater'', interval = S3_LINK_UPDATE_INTERVAL\<rparr>"
  note th = add_task_cron_expr [of ?t init_scheduler 259200]
  note th' = add_task_cron_expr [of ?t init_scheduler 420]
  have i: "S3_LINK_UPDATE_INTERVAL = 259200"
    by (simp add: S3_LINK_UPDATE_INTERVAL_def)
  have q: "S3_LINK_UPDATE_INTERVAL div 3600 = 72"
    by (simp add: S3_LINK_UPDATE_INTERVAL_def)
  have s72: "str_int 72 = ''72''"
    by (simp add: str_int_def str_nat.simps digit_char_def)
  have s7: "str_int 7 = ''7''"
    by (simp add: str_int_def str_nat.simps digit_char_def)
  have d: "(3600::int) \<le> 259200" by simp
  have "cron_expr 259200 = (if (259200::int) div 3600 = 1 then ''0 * * * *''
                       else ''0 */'' @ str_int (259200 div 3600) @ '' * * *'')"
    using th [THEN conjunct2, THEN conjunct2, THEN conjunct1] d by (rule mp)
  then have e: "cron_expr S3_LINK_UPDATE_INTERVAL = ''0 */72 * * *''"
    by (simp add: s72 i)
  have a: "\<not> dict_has (job_id ?t) (tasks init_scheduler) \<and> 60 \<le> interval ?t"
    by (simp add: dict_has_def init_scheduler_def i)
  have "map_of (crons (snd (add_task ?t init_scheduler))) (job_id ?t) =
        Some \<lparr>spec = cron_expr (interval ?t), func = Execute (job_id ?t), started = False\<rparr>"
    using th [THEN conjunct1] a by (rule mp)
  then have 1: "map_of (crons (snd (add_task ?t init_scheduler))) ''task_s3_link_updater'' =
     Some \<lparr>spec = ''0 */72 * * *'', func = Execute ''task_s3_link_updater'', started = False\<rparr>"
    by (simp add: job_id_def e)
  have b: "(60::int) \<le> 420 \<and> (420::int) < 3600" by simp
  have "cron_expr 420 = (if (420::int) div 60 = 1 then ''* * * * *''
                       else ''*/'' @ str_int (420 div 60) @ '' * * * *'')"
    using th' [THEN conjunct2, THEN conjunct1] b by (rule mp)
  then have 2: "cron_expr 420 = ''*/7 * * * *''"
    by (simp add: s7)
  from i q 1 2 show ?thesis by (intro conjI)
qed

text \<open>
  C6. Registering a task whose identifier is already in the registry returns \<open>False\<close> and
  leaves the scheduler (registry and dispatch handles) as it was; registering a task whose
  identifier is not there returns \<open>True\<close>, and the registry is the old one with exactly the
  entry of this task appended.
\<close>

theorem add_task_duplicate_or_grows:
  "(dict_has (job_id t) (tasks s) \<longrightarrow> add_task t s = (False, s))
   \<and> (\<not> dict_has (job_id t) (tasks s) \<longrightarrow>
        fst (add_task t s) = True
        \<and> tasks (snd (add_task t s)) = tasks s @ [(job_id t, t)]
        \<and> length (tasks (snd (add_task t s))) = length (tasks s) + 1)"
  by (simp add: add_task_def Let_def update_absent)

theorem add_task_duplicate_or_grows_witness:
  "add_task \<lparr>name = ''a'', interval = 30\<rparr> (snd (add_task \<lparr>name = ''a'', interval = 90\<rparr> init_scheduler))
     = (False, snd (add_task \<lparr>name = ''a'', interval = 90\<rparr> init_scheduler))
   \<and> fst (add_task \<lparr>name = ''a'', interval = 90\<rparr> init_scheduler) = True
   \<and> tasks (snd (add_task \<lparr>name = ''a'', interval = 90\<rparr> init_scheduler))
       = [(''task_a'', \<lparr>name = ''a'', interval = 90\<rparr>)]"
proof -
  let ?s1 = "snd (add_task \<lparr>name = ''a'', interval = 90\<rparr> init_scheduler)"
  have fresh: "\<not> dict_has (job_id \<lparr>name = ''a'', interval = 90\<rparr>) (tasks init_scheduler)"
    by (simp add: dict_has_def init_scheduler_def)
  have first: "fst (add_task \<lparr>name = ''a'', interval = 90\<rparr> init_scheduler) = True
      \<and> tasks ?s1 = [(''task_a'', \<lparr>name = ''a'', interval = 90\<rparr>)]"
    using fresh add_task_duplicate_or_grows [of "\<lparr>name = ''a'', interval = 90\<rparr>" init_scheduler]
    by (simp add: job_id_def init_scheduler_def)
  then have dup: "dict_has (job_id \<lparr>name = ''a'', interval = 30\<rparr>) (tasks ?s1)"
    by (simp add: dict_has_def job_id_def)
  show ?thesis
    using first dup add_task_duplicate_or_grows [of "\<lparr>name = ''a'', interval = 30\<rparr>" ?s1]
    by simp
qed

text \<open>
  C9. From a freshly constructed scheduler, after any sequence of \<open>add_task\<close> and
  \<open>remove_task\<close> operations the dispatch-handle map and the task registry hold the same
  identifiers. \<open>shutdown\<close> empties the dispatch-handle map only: the registry keeps every
  entry, so the two differ whenever a task is registered, and \<open>remove_task\<close> of a registered
  task still succeeds after \<open>shutdown\<close>, removing that task.
\<close>

theorem crons_tasks_same_keys:
  "set (dict_keys (crons (run_ops ops init_scheduler)))
     = set (dict_keys (tasks (run_ops ops init_scheduler)))
   \<and> crons (shutdown s) = []
   \<and> tasks (shutdown s) = tasks s
   \<and> (tasks s \<noteq> [] \<longrightarrow>
        set (dict_keys (crons (shutdown s))) \<noteq> set (dict_keys (tasks (shutdown s))))
   \<and> (dict_has i (tasks s) \<longrightarrow>
        fst (remove_task i (shutdown s)) = True
        \<and> tasks (snd (remove_task i (shutdown s))) = AList.delete i (tasks s)
        \<and> \<not> dict_has i (tasks (snd (remove_task i (shutdown s)))))"
proof -
  have base: "set (dict_keys (crons init_scheduler)) = set (dict_keys (tasks init_scheduler))"
    by (simp add: init_scheduler_def dict_keys_def)
  have inv: "set (dict_keys (crons (run_ops ops init_scheduler)))
     = set (dict_keys (tasks (run_ops ops init_scheduler)))"
    using keys_run_ops [OF base] .
  have down: "crons (shutdown s) = [] \<and> tasks (shutdown s) = tasks s"
    by (simp add: shutdown_def)
  have broken: "tasks s \<noteq> [] \<longrightarrow>
        set (dict_keys (crons (shutdown s))) \<noteq> set (dict_keys (tasks (shutdown s)))"
    by (simp add: shutdown_def dict_keys_def)
  have removed: "dict_has i (tasks s) \<longrightarrow>
        fst (remove_task i (shutdown s)) = True
        \<and> tasks (snd (remove_task i (shutdown s))) = AList.delete i (tasks s)
        \<and> \<not> dict_has i (tasks (snd (remove_task i (shutdown s))))"
    by (simp add: remove_task_def shutdown_def Let_def dict_has_def delete_conv')
  from inv down broken removed show ?thesis by blast
qed

theorem crons_tasks_same_keys_witness:
  "set (dict_keys (crons (run_ops
      [Add_task \<lparr>name = ''a'', interval = 30\<rparr>, Add_task \<lparr>name = ''b'', interval = 90\<rparr>,
       Remove_task ''task_a''] init_scheduler))) = {''task_b''}
   \<and> set (dict_keys (tasks (run_ops
      [Add_task \<lparr>name = ''a'', interval = 30\<rparr>, Add_task \<lparr>name = ''b'', interval = 90\<rparr>,
       Remove_task ''task_a''] init_scheduler))) = {''task_b''}
   \<and> set (dict_keys (crons (shutdown (run_ops
      [Add_task \<lparr>name = ''a'', interval = 30\<rparr>, Add_task \<lparr>name = ''b'', interval = 90\<rparr>,
       Remove_task ''task_a''] init_scheduler))))
       \<noteq> set (dict_keys (tasks (shutdown (run_ops
      [Add_task \<lparr>name = ''a'', interval = 30\<rparr>, Add_task \<lparr>name = ''b'', interval = 90\<rparr>,
       Remove_task ''task_a''] init_scheduler))))
   \<and> fst (remove_task ''task_b'' (shutdown (run_ops
      [Add_task \<lparr>name = ''a'', interval = 30\<rparr>, Add_task \<lparr>name = ''b'', interval = 90\<rparr>,
       Remove_task ''task_a''] init_scheduler))) = True
   \<and> tasks (snd (remove_task ''task_b'' (shutdown (run_ops
      [Add_task \<lparr>name = ''a'', interval = 30\<rparr>, Add_task \<lparr>name = ''b'', interval = 90\<rparr>,
       Remove_task ''task_a''] init_scheduler)))) = []"
proof -
  let ?ops = "[Add_task \<lparr>name = ''a'', interval = 30\<rparr>, Add_task \<lparr>name = ''b'', interval = 90\<rparr>,
       Remove_task ''task_a'']"
  let ?s = "run_ops ?ops init_scheduler"
  note th = crons_tasks_same_keys [of ?ops ?s "''task_b''"]
  have t: "tasks ?s = [(''task_b'', \<lparr>name = ''b'', interval = 90\<rparr>)]"
    by (simp add: add_task_def remove_task_def init_scheduler_def Let_def dict_has_def job_id_def
        create_seconds_job_def crontab_def cron_expr_def)
  from t have has: "dict_has ''task_b'' (tasks ?s)" and ne: "tasks ?s \<noteq> []"
    by (simp_all add: dict_has_def)
  from t have 2: "set (dict_keys (tasks ?s)) = {''task_b''}"
    by (simp add: dict_keys_def)
  have 1: "set (dict_keys (crons ?s)) = {''task_b''}"
    using th [THEN conjunct1] 2 by simp
  note 3 = mp [OF th [THEN conjunct2, THEN conjunct2, THEN conjunct2, THEN conjunct1] ne]
  note r = mp [OF th [THEN conjunct2, THEN conjunct2, THEN conjunct2, THEN conjunct2] has]
  have 5: "tasks (snd (remove_task ''task_b'' (shutdown ?s))) = []"
    using r [THEN conjunct2, THEN conjunct1] t by simp
  from 1 2 3 r [THEN conjunct1] 5 show ?thesis by (intro conjI)
qed

text \<open>
  C3, evaluated on the code: a task with an interval of 30 seconds is registered and the
  scheduler started. Each firing of its every-minute handle calls \<open>wrapped_task\<close>, which
  creates another \<open>seconds_runner\<close> loop: after two minute ticks two loops run. \<open>shutdown\<close>
  stops the handle (a later tick does nothing) and leaves both loops running: their next
  iterations still execute the task.
\<close>

theorem seconds_job_loop_per_tick:
  "loops (cron_fire ''task_t'' (cron_fire ''task_t'' (start (init_runtime
      (snd (add_task \<lparr>name = ''t'', interval = 30\<rparr> init_scheduler))))))
     = [''task_t'', ''task_t'']
   \<and> loops (cron_fire ''task_t'' (runtime_shutdown (cron_fire ''task_t'' (cron_fire ''task_t''
      (start (init_runtime (snd (add_task \<lparr>name = ''t'', interval = 30\<rparr> init_scheduler))))))))
     = [''task_t'', ''task_t'']
   \<and> executions (seconds_runner_step 1 (seconds_runner_step 0 (runtime_shutdown
      (cron_fire ''task_t'' (cron_fire ''task_t''
      (start (init_runtime (snd (add_task \<lparr>name = ''t'', interval = 30\<rparr> init_scheduler)))))))))
     = [''task_t'', ''task_t'']"
  by (simp add: add_task_def init_scheduler_def init_runtime_def start_def cron_fire_def
      wrapped_task_def runtime_shutdown_def shutdown_def seconds_runner_step_def Let_def
      dict_has_def job_id_def create_seconds_job_def crontab_def dict_keys_def)

section \<open>Facts about the link-refresh task\<close>

lemma log_simps [simp]:
  "trace (log ev w) = trace w @ [ev]" "db (log ev w) = db w"
  "files (log ev w) = files w" "objects (log ev w) = objects w"
  by (simp_all add: log_def)

lemma steps_iff:
  "steps w w' \<longleftrightarrow> (\<exists>evs. trace w' = trace w @ evs \<and> Commit \<notin> set evs) \<and> db w' = db w"
proof
  assume a: "steps w w'"
  then have "trace w' = trace w @ new_events w w'"
    unfolding steps_def new_events_def by (metis append_take_drop_id)
  then show "(\<exists>evs. trace w' = trace w @ evs \<and> Commit \<notin> set evs) \<and> db w' = db w"
    using a unfolding steps_def by blast
next
  assume "(\<exists>evs. trace w' = trace w @ evs \<and> Commit \<notin> set evs) \<and> db w' = db w"
  then show "steps w w'"
    unfolding steps_def new_events_def by auto
qed

lemma steps_refl: "steps w w"
  by (simp add: steps_iff)

lemma steps_trans: "steps w w1 \<Longrightarrow> steps w1 w2 \<Longrightarrow> steps w w2"
  unfolding steps_iff by auto

lemma steps_log: "ev \<noteq> Commit \<Longrightarrow> steps w (log ev w)"
  by (simp add: steps_iff)

lemma steps_files: "steps w w' \<Longrightarrow> steps w (w'\<lparr>files := f\<rparr>)"
  by (simp add: steps_iff)

lemma steps_objects: "steps w w' \<Longrightarrow> steps w (w'\<lparr>objects := f\<rparr>)"
  by (simp add: steps_iff)

lemma steps_new_events: "steps w w' \<Longrightarrow> trace w' = trace w @ new_events w w' \<and> Commit \<notin> set (new_events w w')"
  unfolding steps_iff new_events_def by auto

lemma read_chunks_steps: "steps w (snd (read_chunks e p cs w))"
proof (induction cs arbitrary: w)
  case Nil
  then show ?case by (simp add: steps_log)
next
  case (Cons c cs)
  let ?w1 = "log Read_chunk w"
  let ?w2 = "(log (File_write p) ?w1)\<lparr>files := (files ?w1)(p \<mapsto>
                       (case files ?w1 p of None \<Rightarrow> [] | Some c \<Rightarrow> c) @ c)\<rparr>"
  have a: "steps w ?w1" by (simp add: steps_log)
  have b: "steps w (log (File_write p) ?w1)"
    by (rule steps_trans [OF a]) (simp add: steps_log)
  have c: "steps w ?w2"
    by (rule steps_files [OF b])
  have d: "steps w (snd (read_chunks e p cs ?w2))"
    by (rule steps_trans [OF c Cons.IH])
  show ?case using a b d by (simp add: Let_def)
qed

lemma read_chunks_files:
  "q \<noteq> p \<Longrightarrow> files (snd (read_chunks e p cs w)) q = files w q"
  by (induction cs arbitrary: w) (simp_all add: Let_def)

lemma read_chunks_exists:
  "files w p \<noteq> None \<Longrightarrow> files (snd (read_chunks e p cs w)) p \<noteq> None"
  by (induction cs arbitrary: w) (simp_all add: Let_def)

lemma read_chunks_objects: "objects (snd (read_chunks e p cs w)) = objects w"
  by (induction cs arbitrary: w) (simp_all add: Let_def)

lemma reupload_try_steps: "steps w (snd (reupload_try e url tp w))"
proof -
  let ?w1 = "log (Http_get url) w"
  let ?w2 = "(log (File_open tp) ?w1)\<lparr>files := (files ?w1)(tp \<mapsto> [])\<rparr>"
  obtain r w3 where rc: "read_chunks e tp (snd (http_response e url)) ?w2 = (r, w3)"
    by (cases "read_chunks e tp (snd (http_response e url)) ?w2") auto
  have a1: "steps w ?w1" by (simp add: steps_log)
  have a2: "steps w (log (File_open tp) ?w1)"
    by (rule steps_trans [OF a1]) (simp add: steps_log)
  have a2': "steps w ?w2" by (rule steps_files [OF a2])
  have "steps ?w2 w3" using read_chunks_steps [of ?w2 e tp "snd (http_response e url)"] rc by simp
  then have a3: "steps w w3" by (rule steps_trans [OF a2'])
  have a4: "steps w (log (File_open tp) w3)"
    by (rule steps_trans [OF a3]) (simp add: steps_log)
  have a5: "steps w (log (Upload k) (log (File_open tp) w3))" for k
    by (rule steps_trans [OF a4]) (simp add: steps_log)
  have a6: "steps w (log (Presign k x) ((log (Upload k) (log (File_open tp) w3))\<lparr>objects := f\<rparr>))" for k x f
    by (rule steps_trans [OF steps_objects [OF a5 [of k], of f]]) (simp add: steps_log)
  show ?thesis
    unfolding reupload_try_def
    using a1 a2 a3 a4 a5 a6 rc
    by (simp add: Let_def split: sum.splits option.splits)
qed

lemma reupload_try_files:
  assumes "q \<noteq> tp"
  shows "files (snd (reupload_try e url tp w)) q = files w q"
proof -
  let ?w1 = "log (Http_get url) w"
  let ?w2 = "(log (File_open tp) ?w1)\<lparr>files := (files ?w1)(tp \<mapsto> [])\<rparr>"
  obtain r w3 where rc: "read_chunks e tp (snd (http_response e url)) ?w2 = (r, w3)"
    by (cases "read_chunks e tp (snd (http_response e url)) ?w2") auto
  have "files w3 q = files ?w2 q"
    using read_chunks_files [OF assms, of e "snd (http_response e url)" ?w2] rc by simp
  then have a: "files w3 q = files w q" using assms by simp
  show ?thesis
    unfolding reupload_try_def
    using a rc
    by (simp add: Let_def split: sum.splits option.splits)
qed

lemma reupload_file_steps: "steps w (snd (reupload_file e url w))"
proof -
  let ?tp = "mkstemp_name e (length (trace w))"
  let ?w0 = "(log (Mkstemp ?tp) w)\<lparr>files := (files w)(?tp \<mapsto> [])\<rparr>"
  obtain r w1 where rt: "reupload_try e url ?tp ?w0 = (r, w1)"
    by (cases "reupload_try e url ?tp ?w0") auto
  have a0: "steps w ?w0" by (rule steps_files) (simp add: steps_log)
  have "steps ?w0 w1" using reupload_try_steps [of ?w0 e url ?tp] rt by simp
  then have a1: "steps w w1" by (rule steps_trans [OF a0])
  have a2: "steps w ((log (Remove ?tp) w1)\<lparr>files := f\<rparr>)" for f
    by (rule steps_files, rule steps_trans [OF a1]) (simp add: steps_log)
  show ?thesis
    unfolding reupload_file_def using a1 a2 rt by (simp add: Let_def)
qed

lemma reupload_file_files:
  "files (snd (reupload_file e url w)) = (files w)(mkstemp_name e (length (trace w)) := None)"
proof
  fix q
  let ?tp = "mkstemp_name e (length (trace w))"
  let ?w0 = "(log (Mkstemp ?tp) w)\<lparr>files := (files w)(?tp \<mapsto> [])\<rparr>"
  obtain r w1 where rt: "reupload_try e url ?tp ?w0 = (r, w1)"
    by (cases "reupload_try e url ?tp ?w0") auto
  show "files (snd (reupload_file e url w)) q = ((files w)(?tp := None)) q"
  proof (cases "q = ?tp")
    case True
    then show ?thesis unfolding reupload_file_def using rt by (simp add: Let_def)
  next
    case False
    have "files w1 q = files ?w0 q"
      using reupload_try_files [OF False, of e url ?w0] rt by simp
    then have "files w1 q = files w q" using False by simp
    then show ?thesis unfolding reupload_file_def using rt False by (simp add: Let_def)
  qed
qed

lemma delete_s3_object_steps: "steps w (snd (delete_s3_object e path w))"
  unfolding delete_s3_object_def
  by (auto simp: steps_refl steps_log steps_objects split: option.splits)

lemma refresh_s3_link_steps: "steps w (snd (refresh_s3_link e url w))"
proof -
  have a: "steps w (snd (reupload_file e url (log (Head_object p) w)))" for p
    by (rule steps_trans [OF _ reupload_file_steps]) (simp add: steps_log)
  have b: "steps w (log (Presign p x) (log (Head_object p) w))" for p x
    by (rule steps_trans [of _ "log (Head_object p) w"]) (simp_all add: steps_log)
  have c: "steps w (snd (reupload_file e url (log (Presign p x) (log (Head_object p) w))))" for p x
    by (rule steps_trans [OF b reupload_file_steps])
  show ?thesis
    unfolding refresh_s3_link_def
    using a b c by (simp add: Let_def steps_refl split: option.splits)
qed

lemma update_url_field_steps: "steps w (snd (update_url_field e field w))"
proof -
  have "steps w (snd (update_url_field e (Some url) w))" for url
  proof -
    obtain r w1 where rf: "refresh_s3_link e url w = (r, w1)"
      by (cases "refresh_s3_link e url w") auto
    have a: "steps w w1" using refresh_s3_link_steps [of w e url] rf by simp
    have b: "steps w (snd (delete_s3_object e p w1))" for p
      by (rule steps_trans [OF a delete_s3_object_steps])
    show ?thesis
      unfolding update_url_field_def using a b rf
      by (simp add: Let_def steps_refl split: sum.splits option.splits)
  qed
  then show ?thesis by (cases field) (simp_all add: update_url_field_def steps_refl)
qed

lemma update_template_urls_steps: "steps w (snd (update_template_urls e t w))"
proof -
  obtain d u1 w1 where f1: "update_url_field e (download_url t) w = ((d, u1), w1)"
    by (cases "update_url_field e (download_url t) w") auto
  obtain i u2 w2 where f2: "update_url_field e (image_url t) w1 = ((i, u2), w2)"
    by (cases "update_url_field e (image_url t) w1") auto
  have "steps w w1" using update_url_field_steps [of w e "download_url t"] f1 by simp
  moreover have "steps w1 w2" using update_url_field_steps [of w1 e "image_url t"] f2 by simp
  ultimately have "steps w w2" by (rule steps_trans)
  then show ?thesis by (simp add: update_template_urls_def f1 f2)
qed

lemma process_templates_steps: "steps w (snd (process_templates e ts n w))"
proof (induction ts arbitrary: n w)
  case Nil
  then show ?case by (simp add: steps_refl)
next
  case (Cons t ts)
  obtain t' u w1 where f1: "update_template_urls e t w = ((t', u), w1)"
    by (cases "update_template_urls e t w") auto
  obtain ts' m w2 where f2: "process_templates e ts (if u then n + 1 else n) w1 = ((ts', m), w2)"
    by (cases "process_templates e ts (if u then n + 1 else n) w1") auto
  have "steps w w1" using update_template_urls_steps [of w e t] f1 by simp
  moreover have "steps w1 w2" using Cons.IH [of w1 "if u then n + 1 else n"] f2 by simp
  ultimately have "steps w w2" by (rule steps_trans)
  then show ?case using f1 f2 by simp
qed

lemma quiet_env_simps [simp]:
  "failed quiet_env w = False"
  "presigned quiet_env key expires n = ''https://signed/'' @ key"
  "uuid4 quiet_env n = ''uuid''"
  "mkstemp_name quiet_env n = ''/tmp/tmpfile''"
  "http_response quiet_env url = (200, [''ab'', ''cd''])"
  by (simp_all add: failed_def quiet_env_def)

lemma store_world_simps [simp]:
  "objects (store_world objs rows) = objs"
  "files (store_world objs rows) = Map.empty"
  "db (store_world objs rows) = rows"
  "trace (store_world objs rows) = []"
  by (simp_all add: store_world_def)

lemma count_commit_last:
  "Commit \<notin> set xs \<Longrightarrow> length (filter (\<lambda>ev. ev = Commit) (xs @ [Commit])) = 1"
  by (induction xs) auto

section \<open>Claims about the link-refresh task\<close>

text \<open>
  C7, as the code has it. A URL that contains \<open>s3.amazonaws.com\<close> is split at
  \<open>s3.amazonaws.com/\<close>, the marker with its slash: it gives \<open>None\<close> when the marker is never
  followed by a slash, and everything after the marker with its slash, the query string
  included, when that occurs once. A URL without the marker that splits at \<open>/\<close> into at
  least four segments gives the segments from the fourth on, joined by \<open>/\<close> and cut at the
  first \<open>?\<close>; with fewer segments it gives \<open>None\<close>. With no path, or an empty one, the
  refresh of the field is given up: the field and the state stay as they were and nothing
  is raised.
\<close>

theorem extract_path_from_url_cases:
  "(py_in ''s3.amazonaws.com'' url \<and> \<not> py_in ''s3.amazonaws.com/'' url \<longrightarrow>
      extract_path_from_url url = None)
   \<and> (\<not> py_in ''s3.amazonaws.com/'' (pre @ ''s3.amazonaws.com'')
        \<and> \<not> py_in ''s3.amazonaws.com/'' rest \<longrightarrow>
      extract_path_from_url (pre @ ''s3.amazonaws.com/'' @ rest) = Some rest)
   \<and> (\<not> py_in ''s3.amazonaws.com'' url \<longrightarrow>
      extract_path_from_url url =
        (if 4 \<le> length (py_split ''/'' url)
         then Some (takeWhile (\<lambda>c. c \<noteq> CHR ''?'') (py_join ''/'' (drop 3 (py_split ''/'' url))))
         else None))
   \<and> (extract_path_from_url url = None \<or> extract_path_from_url url = Some [] \<longrightarrow>
      update_url_field e (Some url) w = ((Some url, False), w))"
proof -
  have none: "py_in ''s3.amazonaws.com'' url \<and> \<not> py_in ''s3.amazonaws.com/'' url \<longrightarrow>
      extract_path_from_url url = None"
    by (simp add: extract_path_from_url_def py_split_no_occurrence nth_opt_def)
  have once: "\<not> py_in ''s3.amazonaws.com/'' (pre @ ''s3.amazonaws.com'')
        \<and> \<not> py_in ''s3.amazonaws.com/'' rest \<longrightarrow>
      extract_path_from_url (pre @ ''s3.amazonaws.com/'' @ rest) = Some rest"
    by (simp add: extract_marker_first py_split_no_occurrence nth_opt_def
        del: py_in.simps py_split.simps append.simps)
  have generic: "\<not> py_in ''s3.amazonaws.com'' url \<longrightarrow>
      extract_path_from_url url =
        (if 4 \<le> length (py_split ''/'' url)
         then Some (takeWhile (\<lambda>c. c \<noteq> CHR ''?'') (py_join ''/'' (drop 3 (py_split ''/'' url))))
         else None)"
    by (simp add: extract_path_from_url_def Let_def py_split_hd_single
        del: py_in.simps py_split.simps)
  have abort: "extract_path_from_url url = None \<or> extract_path_from_url url = Some [] \<longrightarrow>
      update_url_field e (Some url) w = ((Some url, False), w)"
    by (auto simp: update_url_field_def refresh_s3_link_def Let_def)
  from none once generic abort show ?thesis by blast
qed

theorem extract_path_from_url_cases_witness:
  "extract_path_from_url ''http://s3.amazonaws.com'' = None
   \<and> extract_path_from_url ''https://b.s3.amazonaws.com/dir/file.pdf?X=1''
        = Some ''dir/file.pdf?X=1''
   \<and> extract_path_from_url ''https://host/bucket/file.pdf?sig=a/b'' = Some ''bucket/file.pdf''
   \<and> extract_path_from_url ''https://host'' = None
   \<and> update_url_field quiet_env (Some ''https://host'') (store_world Map.empty [])
        = ((Some ''https://host'', False), store_world Map.empty [])"
proof -
  note th1 = extract_path_from_url_cases [of "''https://host/bucket/file.pdf?sig=a/b''"
      "''https://b.''" "''dir/file.pdf?X=1''" quiet_env "store_world Map.empty []"]
  note th2 = extract_path_from_url_cases [of "''https://host''" "[]" "[]" quiet_env
      "store_world Map.empty []"]
  note th3 = extract_path_from_url_cases [of "''http://s3.amazonaws.com''" "[]" "[]" quiet_env
      "store_world Map.empty []"]
  have h0: "py_in ''s3.amazonaws.com'' ''http://s3.amazonaws.com''
        \<and> \<not> py_in ''s3.amazonaws.com/'' ''http://s3.amazonaws.com''"
    by (simp add: startswith_def)
  have 0: "extract_path_from_url ''http://s3.amazonaws.com'' = None"
    using th3 [THEN conjunct1] h0 by (rule mp)
  have h1: "\<not> py_in ''s3.amazonaws.com/'' (''https://b.'' @ ''s3.amazonaws.com'')
        \<and> \<not> py_in ''s3.amazonaws.com/'' ''dir/file.pdf?X=1''"
    by (simp add: startswith_def)
  have "extract_path_from_url (''https://b.'' @ ''s3.amazonaws.com/'' @ ''dir/file.pdf?X=1'')
          = Some ''dir/file.pdf?X=1''"
    using th1 [THEN conjunct2, THEN conjunct1] h1 by (rule mp)
  then have 1: "extract_path_from_url ''https://b.s3.amazonaws.com/dir/file.pdf?X=1''
      = Some ''dir/file.pdf?X=1''"
    by simp
  have h2: "\<not> py_in ''s3.amazonaws.com'' ''https://host/bucket/file.pdf?sig=a/b''"
    by (simp add: startswith_def)
  have "extract_path_from_url ''https://host/bucket/file.pdf?sig=a/b'' =
        (if 4 \<le> length (py_split ''/'' ''https://host/bucket/file.pdf?sig=a/b'')
         then Some (takeWhile (\<lambda>c. c \<noteq> CHR ''?'')
                (py_join ''/'' (drop 3 (py_split ''/'' ''https://host/bucket/file.pdf?sig=a/b''))))
         else None)"
    using th1 [THEN conjunct2, THEN conjunct2, THEN conjunct1] h2 by (rule mp)
  then have 2: "extract_path_from_url ''https://host/bucket/file.pdf?sig=a/b'' = Some ''bucket/file.pdf''"
    by (simp add: startswith_def)
  have h3: "\<not> py_in ''s3.amazonaws.com'' ''https://host''"
    by (simp add: startswith_def)
  have "extract_path_from_url ''https://host'' =
        (if 4 \<le> length (py_split ''/'' ''https://host'')
         then Some (takeWhile (\<lambda>c. c \<noteq> CHR ''?'')
                (py_join ''/'' (drop 3 (py_split ''/'' ''https://host''))))
         else None)"
    using th2 [THEN conjunct2, THEN conjunct2, THEN conjunct1] h3 by (rule mp)
  then have 3: "extract_path_from_url ''https://host'' = None"
    by (simp add: startswith_def)
  then have h4: "extract_path_from_url ''https://host'' = None
      \<or> extract_path_from_url ''https://host'' = Some []"
    by simp
  have 4: "update_url_field quiet_env (Some ''https://host'') (store_world Map.empty [])
      = ((Some ''https://host'', False), store_world Map.empty [])"
    using th2 [THEN conjunct2, THEN conjunct2, THEN conjunct2] h4 by (rule mp)
  from 0 1 2 3 4 show ?thesis by (intro conjI)
qed

text \<open>
  C7 as stated fails: a URL that contains the marker with no slash after it gives no path,
  and a URL in which the marker with its slash occurs twice gives only the text between
  the two occurrences.
\<close>

theorem extract_path_marker_counterexample:
  "py_in ''s3.amazonaws.com'' ''http://s3.amazonaws.com''
   \<and> extract_path_from_url ''http://s3.amazonaws.com'' = None
   \<and> py_in ''s3.amazonaws.com'' ''https://s3.amazonaws.com/a/s3.amazonaws.com/b''
   \<and> extract_path_from_url ''https://s3.amazonaws.com/a/s3.amazonaws.com/b'' = Some ''a/''"
  by (simp add: extract_path_from_url_def startswith_def nth_opt_def)

text \<open>
  C10. The key \<open>_delete_s3_object\<close> passes to the store is the second segment of the path
  split at \<open>/\<close>, which is never the path itself, while the existence probe of
  \<open>_refresh_s3_link\<close> is made with the whole path. For a path without \<open>/\<close> the operation
  returns \<open>False\<close>, the state as it was: no call reaches the store and nothing is raised.
\<close>

theorem delete_s3_object_second_segment:
  "(CHR ''/'' \<notin> set path \<longrightarrow> delete_s3_object e path w = (False, w))
   \<and> (CHR ''/'' \<in> set path \<longrightarrow>
        (\<exists>key. nth_opt (py_split ''/'' path) 1 = Some key
           \<and> key \<noteq> path
           \<and> new_events w (snd (delete_s3_object e path w)) = [Delete_object key]
           \<and> fst (delete_s3_object e path w) = (\<not> failed e w)))
   \<and> (extract_path_from_url url = Some path \<and> path \<noteq> [] \<longrightarrow>
        (\<exists>evs. new_events w (snd (refresh_s3_link e url w)) = Head_object path # evs))"
proof -
  have no_slash: "CHR ''/'' \<notin> set path \<longrightarrow> delete_s3_object e path w = (False, w)"
  proof
    assume "CHR ''/'' \<notin> set path"
    then have "\<not> py_in ''/'' path" by (simp add: py_in_single)
    then have "py_split ''/'' path = [path]" by (rule py_split_no_occurrence)
    then show "delete_s3_object e path w = (False, w)"
      by (simp add: delete_s3_object_def nth_opt_def)
  qed
  have slash: "CHR ''/'' \<in> set path \<longrightarrow>
        (\<exists>key. nth_opt (py_split ''/'' path) 1 = Some key
           \<and> key \<noteq> path
           \<and> new_events w (snd (delete_s3_object e path w)) = [Delete_object key]
           \<and> fst (delete_s3_object e path w) = (\<not> failed e w))"
  proof
    assume "CHR ''/'' \<in> set path"
    then have "py_in ''/'' path" by (simp add: py_in_single)
    then have "2 \<le> length (py_split ''/'' path)"
      using py_split_occurrence [of "''/''" path] by simp
    then obtain key where k: "nth_opt (py_split ''/'' path) 1 = Some key"
      by (simp add: nth_opt_def)
    have "length key < length path"
      using second_segment_shorter [of "''/''" path key] k by simp
    then have ne: "key \<noteq> path" by auto
    have ev: "new_events w (snd (delete_s3_object e path w)) = [Delete_object key]"
      using k by (simp add: delete_s3_object_def new_events_def)
    have r: "fst (delete_s3_object e path w) = (\<not> failed e w)"
      using k by (simp add: delete_s3_object_def)
    from k ne ev r show "\<exists>key. nth_opt (py_split ''/'' path) 1 = Some key
           \<and> key \<noteq> path
           \<and> new_events w (snd (delete_s3_object e path w)) = [Delete_object key]
           \<and> fst (delete_s3_object e path w) = (\<not> failed e w)"
      by blast
  qed
  have probe: "extract_path_from_url url = Some path \<and> path \<noteq> [] \<longrightarrow>
        (\<exists>evs. new_events w (snd (refresh_s3_link e url w)) = Head_object path # evs)"
  proof
    assume h: "extract_path_from_url url = Some path \<and> path \<noteq> []"
    let ?w1 = "log (Head_object path) w"
    have a: "steps ?w1 (snd (refresh_s3_link e url w))"
    proof -
      have r1: "steps ?w1 (snd (reupload_file e url ?w1))" by (rule reupload_file_steps)
      have r2: "steps ?w1 (log (Presign path x) ?w1)" for x by (simp add: steps_log)
      have r3: "steps ?w1 (snd (reupload_file e url (log (Presign path x) ?w1)))" for x
        by (rule steps_trans [OF r2 reupload_file_steps])
      show ?thesis using h r1 r2 r3 by (simp add: refresh_s3_link_def Let_def)
    qed
    then obtain evs where "trace (snd (refresh_s3_link e url w)) = trace ?w1 @ evs"
      unfolding steps_iff by blast
    then have "new_events w (snd (refresh_s3_link e url w)) = Head_object path # evs"
      by (simp add: new_events_def)
    then show "\<exists>evs. new_events w (snd (refresh_s3_link e url w)) = Head_object path # evs"
      by blast
  qed
  from no_slash slash probe show ?thesis by blast
qed

theorem delete_s3_object_second_segment_witness:
  "delete_s3_object quiet_env ''file.pdf'' (store_world Map.empty []) = (False, store_world Map.empty [])
   \<and> (\<exists>key. nth_opt (py_split ''/'' ''dir/file.pdf'') 1 = Some key
         \<and> key \<noteq> ''dir/file.pdf''
         \<and> new_events (store_world Map.empty [])
              (snd (delete_s3_object quiet_env ''dir/file.pdf'' (store_world Map.empty [])))
            = [Delete_object key]
         \<and> fst (delete_s3_object quiet_env ''dir/file.pdf'' (store_world Map.empty []))
            = (\<not> failed quiet_env (store_world Map.empty [])))
   \<and> (\<exists>evs. new_events (store_world Map.empty [])
              (snd (refresh_s3_link quiet_env ''https://b.s3.amazonaws.com/dir/file.pdf''
                     (store_world Map.empty [])))
            = Head_object ''dir/file.pdf'' # evs)"
proof -
  let ?w = "store_world Map.empty []"
  let ?url = "''https://b.s3.amazonaws.com/dir/file.pdf''"
  note th1 = delete_s3_object_second_segment [of "''file.pdf''" quiet_env ?w ?url]
  note th2 = delete_s3_object_second_segment [of "''dir/file.pdf''" quiet_env ?w ?url]
  have h1: "CHR ''/'' \<notin> set ''file.pdf''" by simp
  have 1: "delete_s3_object quiet_env ''file.pdf'' ?w = (False, ?w)"
    using th1 [THEN conjunct1] h1 by (rule mp)
  have h2: "CHR ''/'' \<in> set ''dir/file.pdf''" by simp
  note 2 = mp [OF th2 [THEN conjunct2, THEN conjunct1] h2]
  have h3: "extract_path_from_url ?url = Some ''dir/file.pdf'' \<and> ''dir/file.pdf'' \<noteq> []"
    by (simp add: extract_path_from_url_def startswith_def nth_opt_def)
  note 3 = mp [OF th2 [THEN conjunct2, THEN conjunct2] h3]
  from 1 2 3 show ?thesis by (intro conjI)
qed

text \<open>
  C1, evaluated on the code. A field holds a URL whose path \<open>dir/file.pdf\<close> is in the
  bucket, beside an object \<open>file.pdf\<close>, and no call fails. The probe and the signing are
  made with the key \<open>dir/file.pdf\<close> and the field gets the URL signed for it with
  \<open>ExpiresIn = 604800\<close>; the deletion is made with the key \<open>file.pdf\<close>. Afterwards
  \<open>dir/file.pdf\<close> is still in the bucket and \<open>file.pdf\<close> is gone.
\<close>

theorem refresh_deletes_second_segment:
  "extract_path_from_url ''https://b.s3.amazonaws.com/dir/file.pdf'' = Some ''dir/file.pdf''
   \<and> objects (store_world [''dir/file.pdf'' \<mapsto> ''data'', ''file.pdf'' \<mapsto> ''other''] [])
        ''dir/file.pdf'' = Some ''data''
   \<and> objects (store_world [''dir/file.pdf'' \<mapsto> ''data'', ''file.pdf'' \<mapsto> ''other''] [])
        ''file.pdf'' = Some ''other''
   \<and> fst (update_url_field quiet_env (Some ''https://b.s3.amazonaws.com/dir/file.pdf'')
            (store_world [''dir/file.pdf'' \<mapsto> ''data'', ''file.pdf'' \<mapsto> ''other''] []))
      = (Some ''https://signed/dir/file.pdf'', True)
   \<and> trace (snd (update_url_field quiet_env (Some ''https://b.s3.amazonaws.com/dir/file.pdf'')
            (store_world [''dir/file.pdf'' \<mapsto> ''data'', ''file.pdf'' \<mapsto> ''other''] [])))
      = [Head_object ''dir/file.pdf'', Presign ''dir/file.pdf'' 604800, Delete_object ''file.pdf'']
   \<and> objects (snd (update_url_field quiet_env (Some ''https://b.s3.amazonaws.com/dir/file.pdf'')
            (store_world [''dir/file.pdf'' \<mapsto> ''data'', ''file.pdf'' \<mapsto> ''other''] [])))
        ''dir/file.pdf'' = Some ''data''
   \<and> objects (snd (update_url_field quiet_env (Some ''https://b.s3.amazonaws.com/dir/file.pdf'')
            (store_world [''dir/file.pdf'' \<mapsto> ''data'', ''file.pdf'' \<mapsto> ''other''] [])))
        ''file.pdf'' = None"
proof -
  let ?url = "''https://b.s3.amazonaws.com/dir/file.pdf''"
  let ?w = "store_world [''dir/file.pdf'' \<mapsto> ''data'', ''file.pdf'' \<mapsto> ''other''] []"
  let ?w1 = "log (Presign ''dir/file.pdf'' 604800) (log (Head_object ''dir/file.pdf'') ?w)"
  have x: "extract_path_from_url ?url = Some ''dir/file.pdf''"
    by (simp add: extract_path_from_url_def startswith_def nth_opt_def)
  have k: "nth_opt (py_split ''/'' ''dir/file.pdf'') 1 = Some ''file.pdf''"
    by (simp add: startswith_def nth_opt_def)
  have rf: "refresh_s3_link quiet_env ?url ?w = (Inr ''https://signed/dir/file.pdf'', ?w1)"
    unfolding refresh_s3_link_def x by (simp add: Let_def)
  have dl: "delete_s3_object quiet_env ''dir/file.pdf'' ?w1
      = (True, (log (Delete_object ''file.pdf'') ?w1)\<lparr>objects := (objects ?w1)(''file.pdf'' := None)\<rparr>)"
    unfolding delete_s3_object_def k by simp
  have u: "update_url_field quiet_env (Some ?url) ?w
      = ((Some ''https://signed/dir/file.pdf'', True),
         (log (Delete_object ''file.pdf'') ?w1)\<lparr>objects := (objects ?w1)(''file.pdf'' := None)\<rparr>)"
    by (simp add: update_url_field_def x rf dl Let_def)
  show ?thesis by (simp add: u x)
qed

text \<open>
  C8. Whatever \<open>_reupload_file\<close> returns or raises (a successful upload, a status other
  than 200, a failure while the body is read or written, a failure of the upload or of the
  signing), the temporary file it created does not exist when it exits; the other local
  files are as they were.
\<close>

theorem reupload_file_removes_temp:
  "files (snd (reupload_file e url w)) (mkstemp_name e (length (trace w))) = None
   \<and> files (snd (reupload_file e url w)) = (files w)(mkstemp_name e (length (trace w)) := None)"
  by (simp add: reupload_file_files)

theorem reupload_file_removes_temp_witness:
  "fst (reupload_file quiet_env ''https://host/bucket/file.pdf?sig=1'' (store_world Map.empty []))
     = Inr ''https://signed/uuid.pdf''
   \<and> files (snd (reupload_file quiet_env ''https://host/bucket/file.pdf?sig=1''
                  (store_world Map.empty []))) ''/tmp/tmpfile'' = None
   \<and> fst (reupload_file (quiet_env\<lparr>http_response := (\<lambda>u. (404, []))\<rparr>)
            ''https://host/bucket/file.pdf?sig=1'' (store_world Map.empty []))
     = Inl (Download_failed 404)
   \<and> files (snd (reupload_file (quiet_env\<lparr>http_response := (\<lambda>u. (404, []))\<rparr>)
                  ''https://host/bucket/file.pdf?sig=1'' (store_world Map.empty []))) ''/tmp/tmpfile''
     = None
   \<and> fst (reupload_file (quiet_env\<lparr>fails := (\<lambda>n. n = 5)\<rparr>)
            ''https://host/bucket/file.pdf?sig=1'' (store_world Map.empty []))
     = Inl (Call_failed Read_chunk)
   \<and> files (snd (reupload_file (quiet_env\<lparr>fails := (\<lambda>n. n = 5)\<rparr>)
                  ''https://host/bucket/file.pdf?sig=1'' (store_world Map.empty []))) ''/tmp/tmpfile''
     = None
   \<and> fst (reupload_file (quiet_env\<lparr>fails := (\<lambda>n. n = 9)\<rparr>)
            ''https://host/bucket/file.pdf?sig=1'' (store_world Map.empty []))
     = Inl (Call_failed (Upload ''uuid.pdf''))
   \<and> files (snd (reupload_file (quiet_env\<lparr>fails := (\<lambda>n. n = 9)\<rparr>)
                  ''https://host/bucket/file.pdf?sig=1'' (store_world Map.empty []))) ''/tmp/tmpfile''
     = None"
proof -
  let ?url = "''https://host/bucket/file.pdf?sig=1''"
  let ?w = "store_world Map.empty []"
  let ?e404 = "quiet_env\<lparr>http_response := (\<lambda>u. (404, []))\<rparr>"
  let ?e5 = "quiet_env\<lparr>fails := (\<lambda>n. n = 5)\<rparr>"
  let ?e9 = "quiet_env\<lparr>fails := (\<lambda>n. n = 9)\<rparr>"
  have ext: "splitext_ext (basename (case nth_opt (py_split ''?'' ?url) 0 of None \<Rightarrow> [] | Some b \<Rightarrow> b))
      = ''.pdf''"
    by (simp add: nth_opt_def startswith_def basename_def splitext_ext_def)
  have 1: "fst (reupload_file quiet_env ?url ?w) = Inr ''https://signed/uuid.pdf''"
    by (simp add: reupload_file_def reupload_try_def ext Let_def del: py_split.simps)
  have 2: "files (snd (reupload_file quiet_env ?url ?w)) ''/tmp/tmpfile'' = None"
    using reupload_file_removes_temp [of quiet_env ?url ?w, THEN conjunct1] by simp
  have 3: "fst (reupload_file ?e404 ?url ?w) = Inl (Download_failed 404)"
    by (simp add: reupload_file_def reupload_try_def failed_def quiet_env_def Let_def del: py_split.simps)
  have 4: "files (snd (reupload_file ?e404 ?url ?w)) ''/tmp/tmpfile'' = None"
    using reupload_file_removes_temp [of ?e404 ?url ?w, THEN conjunct1] by (simp add: quiet_env_def)
  have 5: "fst (reupload_file ?e5 ?url ?w) = Inl (Call_failed Read_chunk)"
    by (simp add: reupload_file_def reupload_try_def failed_def quiet_env_def Let_def del: py_split.simps)
  have 6: "files (snd (reupload_file ?e5 ?url ?w)) ''/tmp/tmpfile'' = None"
    using reupload_file_removes_temp [of ?e5 ?url ?w, THEN conjunct1] by (simp add: quiet_env_def)
  have 7: "fst (reupload_file ?e9 ?url ?w) = Inl (Call_failed (Upload ''uuid.pdf''))"
    by (simp add: reupload_file_def reupload_try_def failed_def quiet_env_def ext Let_def del: py_split.simps)
  have 8: "files (snd (reupload_file ?e9 ?url ?w)) ''/tmp/tmpfile'' = None"
    using reupload_file_removes_temp [of ?e9 ?url ?w, THEN conjunct1] by (simp add: quiet_env_def)
  from 1 2 3 4 5 6 7 8 show ?thesis by (intro conjI)
qed

text \<open>
  C2. In a run of \<open>execute\<close> in which the session opens, the query is answered and the S3
  client and the HTTP session open, whatever fails while the templates are processed: the
  trace of the run is the trace of processing every queried template, followed by
  \<open>Commit\<close>; no \<open>Commit\<close> is logged before that, so \<open>Commit\<close> is called exactly once, after
  the last template.
\<close>

theorem execute_commits_once:
  "\<not> fails e (length (trace w)) \<and> \<not> fails e (length (trace w) + 1)
     \<and> \<not> fails e (length (trace w) + 2) \<and> \<not> fails e (length (trace w) + 3) \<longrightarrow>
   trace (snd (execute e w))
     = trace (snd (process_templates e
                (filter (\<lambda>t. download_url t \<noteq> None \<or> image_url t \<noteq> None) (db w)) 0
                (log Http_open (log S3_open (log Query (log Session_open w)))))) @ [Commit]
   \<and> new_events w (snd (process_templates e
                (filter (\<lambda>t. download_url t \<noteq> None \<or> image_url t \<noteq> None) (db w)) 0
                (log Http_open (log S3_open (log Query (log Session_open w))))))
     = [Session_open, Query, S3_open, Http_open]
       @ new_events (log Http_open (log S3_open (log Query (log Session_open w))))
           (snd (process_templates e
                (filter (\<lambda>t. download_url t \<noteq> None \<or> image_url t \<noteq> None) (db w)) 0
                (log Http_open (log S3_open (log Query (log Session_open w))))))
   \<and> Commit \<notin> set (new_events w (snd (process_templates e
                (filter (\<lambda>t. download_url t \<noteq> None \<or> image_url t \<noteq> None) (db w)) 0
                (log Http_open (log S3_open (log Query (log Session_open w)))))))
   \<and> length (filter (\<lambda>ev. ev = Commit) (new_events w (snd (execute e w)))) = 1"
proof
  assume h: "\<not> fails e (length (trace w)) \<and> \<not> fails e (length (trace w) + 1)
     \<and> \<not> fails e (length (trace w) + 2) \<and> \<not> fails e (length (trace w) + 3)"
  let ?w4 = "log Http_open (log S3_open (log Query (log Session_open w)))"
  let ?cands = "filter (\<lambda>t. download_url t \<noteq> None \<or> image_url t \<noteq> None) (db w)"
  let ?p = "process_templates e ?cands 0 ?w4"
  obtain ts n w5 where pt: "?p = ((ts, n), w5)"
    by (cases ?p) auto
  have "steps ?w4 (snd ?p)" by (rule process_templates_steps)
  then have st: "steps ?w4 w5" using pt by simp
  then obtain evs where tr: "trace w5 = trace ?w4 @ evs" and nc: "Commit \<notin> set evs"
    unfolding steps_iff by blast
  have f: "\<not> failed e w" "\<not> failed e (log Session_open w)"
    "\<not> failed e (log Query (log Session_open w))"
    "\<not> failed e (log S3_open (log Query (log Session_open w)))"
    using h by (simp_all add: failed_def numeral_2_eq_2 numeral_3_eq_3)
  have body: "snd (execute_body e w)
      = (if failed e w5 then log Commit w5 else (log Commit w5)\<lparr>db := write_back ts (db w5)\<rparr>)"
    using f pt by (simp add: execute_body_def Let_def)
  have ex: "snd (execute e w) = snd (execute_body e w)"
    by (simp add: execute_def split: prod.splits sum.splits)
  have 1: "trace (snd (execute e w)) = trace (snd ?p) @ [Commit]"
    using ex body pt by simp
  have 2: "new_events w (snd ?p) = [Session_open, Query, S3_open, Http_open] @ new_events ?w4 (snd ?p)"
    using pt tr by (simp add: new_events_def)
  have 3: "Commit \<notin> set (new_events w (snd ?p))"
    using pt tr nc by (simp add: new_events_def)
  have e4: "new_events w (snd (execute e w)) = new_events w (snd ?p) @ [Commit]"
    using 1 pt tr by (simp add: new_events_def)
  have 4: "length (filter (\<lambda>ev. ev = Commit) (new_events w (snd (execute e w)))) = 1"
    unfolding e4 by (rule count_commit_last [OF 3])
  from 1 2 3 4
  show "trace (snd (execute e w)) = trace (snd ?p) @ [Commit]
   \<and> new_events w (snd ?p) = [Session_open, Query, S3_open, Http_open] @ new_events ?w4 (snd ?p)
   \<and> Commit \<notin> set (new_events w (snd ?p))
   \<and> length (filter (\<lambda>ev. ev = Commit) (new_events w (snd (execute e w)))) = 1"
    by blast
qed

theorem execute_commits_once_witness:
  "length (filter (\<lambda>ev. ev = Commit)
      (new_events
         (store_world [''dir/file.pdf'' \<mapsto> ''data'']
            [\<lparr>template_id = 1, download_url = Some ''https://b.s3.amazonaws.com/dir/file.pdf'',
              image_url = None\<rparr>])
         (snd (execute quiet_env
            (store_world [''dir/file.pdf'' \<mapsto> ''data'']
               [\<lparr>template_id = 1, download_url = Some ''https://b.s3.amazonaws.com/dir/file.pdf'',
                 image_url = None\<rparr>]))))) = 1
   \<and> length (filter (\<lambda>ev. ev = Commit)
      (new_events
         (store_world [''dir/file.pdf'' \<mapsto> ''data'']
            [\<lparr>template_id = 1, download_url = Some ''https://b.s3.amazonaws.com/dir/file.pdf'',
              image_url = None\<rparr>])
         (snd (execute (quiet_env\<lparr>fails := (\<lambda>n. 4 \<le> n \<and> n < 8)\<rparr>)
            (store_world [''dir/file.pdf'' \<mapsto> ''data'']
               [\<lparr>template_id = 1, download_url = Some ''https://b.s3.amazonaws.com/dir/file.pdf'',
                 image_url = None\<rparr>]))))) = 1"
proof -
  let ?w = "store_world [''dir/file.pdf'' \<mapsto> ''data'']
            [\<lparr>template_id = 1, download_url = Some ''https://b.s3.amazonaws.com/dir/file.pdf'',
              image_url = None\<rparr>]"
  let ?e = "quiet_env\<lparr>fails := (\<lambda>n. 4 \<le> n \<and> n < 8)\<rparr>"
  have h1: "\<not> fails quiet_env (length (trace ?w)) \<and> \<not> fails quiet_env (length (trace ?w) + 1)
     \<and> \<not> fails quiet_env (length (trace ?w) + 2) \<and> \<not> fails quiet_env (length (trace ?w) + 3)"
    by (simp add: quiet_env_def)
  have h2: "\<not> fails ?e (length (trace ?w)) \<and> \<not> fails ?e (length (trace ?w) + 1)
     \<and> \<not> fails ?e (length (trace ?w) + 2) \<and> \<not> fails ?e (length (trace ?w) + 3)"
    by simp
  note c1 = mp [OF execute_commits_once [of quiet_env ?w] h1]
  note c2 = mp [OF execute_commits_once [of ?e ?w] h2]
  from c1 [THEN conjunct2, THEN conjunct2, THEN conjunct2]
       c2 [THEN conjunct2, THEN conjunct2, THEN conjunct2]
  show ?thesis by (intro conjI)
qed

text \<open>
  C5. \<open>execute\<close> returns normally in every environment, whatever call fails. When the body
  of its \<open>try\<close> raised, the committed rows are as they were before the run; when the
  failure is that of opening the session, of the query or of opening the S3 client or the
  HTTP session, \<open>Commit\<close> is not called at all.
\<close>

theorem execute_never_raises:
  "fst (execute e w) = Inr ()
   \<and> (isl (fst (execute_body e w)) \<longrightarrow> db (snd (execute e w)) = db w)
   \<and> (fails e (length (trace w)) \<or> fails e (length (trace w) + 1)
        \<or> fails e (length (trace w) + 2) \<or> fails e (length (trace w) + 3) \<longrightarrow>
       isl (fst (execute_body e w)) \<and> Commit \<notin> set (new_events w (snd (execute e w))))"
proof -
  let ?w4 = "log Http_open (log S3_open (log Query (log Session_open w)))"
  let ?cands = "filter (\<lambda>t. download_url t \<noteq> None \<or> image_url t \<noteq> None) (db w)"
  let ?p = "process_templates e ?cands 0 ?w4"
  obtain ts n w5 where pt: "?p = ((ts, n), w5)"
    by (cases ?p) auto
  have "steps ?w4 (snd ?p)" by (rule process_templates_steps)
  then have st: "db w5 = db w" using pt by (simp add: steps_iff)
  have ex: "snd (execute e w) = snd (execute_body e w)"
    by (simp add: execute_def split: prod.splits sum.splits)
  have 1: "fst (execute e w) = Inr ()"
    by (simp add: execute_def split: prod.splits sum.splits)
  have 2: "isl (fst (execute_body e w)) \<longrightarrow> db (snd (execute e w)) = db w"
    unfolding ex using pt st by (simp add: execute_body_def Let_def)
  have f: "failed e w = fails e (length (trace w))"
    "failed e (log Session_open w) = fails e (length (trace w) + 1)"
    "failed e (log Query (log Session_open w)) = fails e (length (trace w) + 2)"
    "failed e (log S3_open (log Query (log Session_open w))) = fails e (length (trace w) + 3)"
    by (simp_all add: failed_def numeral_2_eq_2 numeral_3_eq_3)
  have 3: "fails e (length (trace w)) \<or> fails e (length (trace w) + 1)
        \<or> fails e (length (trace w) + 2) \<or> fails e (length (trace w) + 3) \<longrightarrow>
       isl (fst (execute_body e w)) \<and> Commit \<notin> set (new_events w (snd (execute e w)))"
    unfolding ex f [symmetric]
    by (auto simp: execute_body_def Let_def new_events_def)
  from 1 2 3 show ?thesis by blast
qed

theorem execute_never_raises_witness:
  "fst (execute (quiet_env\<lparr>fails := (\<lambda>n. n = 0)\<rparr>)
         (store_world [''dir/file.pdf'' \<mapsto> ''data'']
            [\<lparr>template_id = 1, download_url = Some ''https://b.s3.amazonaws.com/dir/file.pdf'',
              image_url = None\<rparr>])) = Inr ()
   \<and> db (snd (execute (quiet_env\<lparr>fails := (\<lambda>n. n = 0)\<rparr>)
         (store_world [''dir/file.pdf'' \<mapsto> ''data'']
            [\<lparr>template_id = 1, download_url = Some ''https://b.s3.amazonaws.com/dir/file.pdf'',
              image_url = None\<rparr>])))
      = [\<lparr>template_id = 1, download_url = Some ''https://b.s3.amazonaws.com/dir/file.pdf'',
              image_url = None\<rparr>]
   \<and> Commit \<notin> set (new_events
         (store_world [''dir/file.pdf'' \<mapsto> ''data'']
            [\<lparr>template_id = 1, download_url = Some ''https://b.s3.amazonaws.com/dir/file.pdf'',
              image_url = None\<rparr>])
         (snd (execute (quiet_env\<lparr>fails := (\<lambda>n. n = 0)\<rparr>)
            (store_world [''dir/file.pdf'' \<mapsto> ''data'']
               [\<lparr>template_id = 1, download_url = Some ''https://b.s3.amazonaws.com/dir/file.pdf'',
                 image_url = None\<rparr>]))))"
proof -
  let ?w = "store_world [''dir/file.pdf'' \<mapsto> ''data'']
            [\<lparr>template_id = 1, download_url = Some ''https://b.s3.amazonaws.com/dir/file.pdf'',
              image_url = None\<rparr>]"
  let ?e = "quiet_env\<lparr>fails := (\<lambda>n. n = 0)\<rparr>"
  note th = execute_never_raises [of ?e ?w]
  have h: "fails ?e (length (trace ?w)) \<or> fails ?e (length (trace ?w) + 1)
        \<or> fails ?e (length (trace ?w) + 2) \<or> fails ?e (length (trace ?w) + 3)"
    by simp
  note c3 = mp [OF th [THEN conjunct2, THEN conjunct2] h]
  have "db (snd (execute ?e ?w)) = db ?w"
    using mp [OF th [THEN conjunct2, THEN conjunct1] c3 [THEN conjunct1]] .
  then have 2: "db (snd (execute ?e ?w))
      = [\<lparr>template_id = 1, download_url = Some ''https://b.s3.amazonaws.com/dir/file.pdf'',
              image_url = None\<rparr>]"
    by simp
  from th [THEN conjunct1] 2 c3 [THEN conjunct2] show ?thesis by (intro conjI)
qed

end
